theory Spec2Isabelle
  imports Complex_Main "HOL-Library.Product_Lexorder"
begin

section \<open>Data model\<close>

text \<open>
  The notebook \<^verbatim>\<open>code/Data_Cleaning_and_Aggregation.ipynb\<close> cleans one daily file of the
  Milan telecom data set with five functions: \<^verbatim>\<open>read_and_preprocess\<close>,
  \<^verbatim>\<open>aggregate_data\<close>, \<^verbatim>\<open>resample_data\<close>, \<^verbatim>\<open>clean_data\<close> and \<^verbatim>\<open>process_files\<close>.
  They are modelled below, one definition per function, together with the data-frame
  operations they call.

  Numbers of the input files are kept exact (\<^typ>\<open>rat\<close>), and so are their sums. The
  program adds in 64-bit floating point, or in 64-bit integers for a column of whole
  numbers, so its sums are rounded or wrap where the sums here do not. Where a property
  below speaks of a sum, it is the sum the program computes over the same rows; no
  property rests on a law of exact addition. A text field that is not a number is
  outside the model.
\<close>

datatype column =
  Square_id | Time_interval | Country_code | Sms_in | Sms_out | Call_in | Call_out
  | Internet_traffic

text \<open>The \<^verbatim>\<open>names=[...]\<close> argument of \<^verbatim>\<open>pd.read_csv\<close> in \<^verbatim>\<open>read_and_preprocess\<close>.\<close>

definition names :: "column list" where
  "names = [Square_id, Time_interval, Country_code, Sms_in, Sms_out, Call_in, Call_out,
            Internet_traffic]"

datatype error =
  FileNotFoundError string
  | ParserError
  | KeyError column
  | OutOfBoundsDatetime
  | ValueError

text \<open>
  A data frame is column-major, as in pandas: an association list from column name to
  the column's values, all columns of one length. A missing value (NaN) is \<open>None\<close>.
\<close>

type_synonym 'a frame = "(column \<times> 'a list) list"

text \<open>
  A tokenised line of a tab-separated file: its fields from left to right, an empty (or
  NA) field being \<open>None\<close>. A blank line has no field. A directory lists its files by
  name, in the order \<^verbatim>\<open>os.listdir\<close> returns them.
\<close>

type_synonym line = "rat option list"
type_synonym directory = "(string \<times> line list) list"

text \<open>
  The frame \<^verbatim>\<open>aggregate_data\<close> returns: the \<^verbatim>\<open>time_interval\<close> column, converted to
  time stamps (nanoseconds since the epoch, as pandas stores them), is the index.
\<close>

record ts_frame =
  index :: "int list"
  data :: "rat frame"

text \<open>A row of the cleaned output: \<^verbatim>\<open>square_id, time_interval, internet_traffic\<close>.\<close>

type_synonym out_row = "rat \<times> int \<times> rat"

section \<open>Loader\<close>

text \<open>
  \<^verbatim>\<open>pd.read_csv(file_path, sep='\t', names=[...])\<close>: blank lines are skipped; the first
  line fixes the expected number of fields, at least the number of names; a later line
  with more fields is a parser error, a line with fewer is padded with missing values.
  When the first line has more fields than there are names, the leading surplus columns
  become the index and the names label the last eight columns.
\<close>

definition read_csv :: "directory \<Rightarrow> string \<Rightarrow> error + rat option frame" where
  "read_csv src file_path =
     (case map_of src file_path of
        None \<Rightarrow> Inl (FileNotFoundError file_path)
      | Some content \<Rightarrow>
          (let ls = filter (\<lambda>l. l \<noteq> []) content;
               width = (case ls of [] \<Rightarrow> length names
                        | l # _ \<Rightarrow> max (length l) (length names));
               lead = width - length names
           in if list_ex (\<lambda>l. width < length l) ls then Inl ParserError
              else Inr (map (\<lambda>j. (names ! j,
                          map (\<lambda>l. (l @ replicate (width - length l) None) ! (lead + j)) ls))
                        [0..<length names])))"

text \<open>\<^verbatim>\<open>df.fillna(v)\<close>: every missing value of every column becomes \<open>v\<close>.\<close>

definition fillna :: "rat \<Rightarrow> rat option frame \<Rightarrow> rat frame" where
  "fillna v df = map (\<lambda>(c, xs). (c, map (\<lambda>x. case x of None \<Rightarrow> v | Some y \<Rightarrow> y) xs)) df"

text \<open>\<^verbatim>\<open>df[selected_columns]\<close>: the named columns in the order asked for.\<close>

fun select_columns :: "'a frame \<Rightarrow> column list \<Rightarrow> error + 'a frame" where
  "select_columns df [] = Inr []"
| "select_columns df (c # cs) =
     (case map_of df c of
        None \<Rightarrow> Inl (KeyError c)
      | Some xs \<Rightarrow>
          (case select_columns df cs of
             Inl e \<Rightarrow> Inl e
           | Inr rest \<Rightarrow> Inr ((c, xs) # rest)))"

definition read_and_preprocess :: "directory \<Rightarrow> string \<Rightarrow> column list \<Rightarrow> error + rat frame" where
  "read_and_preprocess src file_path selected_columns =
     (case read_csv src file_path of
        Inl e \<Rightarrow> Inl e
      | Inr df \<Rightarrow> select_columns (fillna 0 df) selected_columns)"

section \<open>Aggregator\<close>

text \<open>
  The single column of a name, as a group-by key or a selection of one column needs it:
  a name that is absent is a \<^verbatim>\<open>KeyError\<close>; a name that occurs more than once (a selection
  may repeat a name) gives no single column and is rejected.
\<close>

definition column_of :: "'a frame \<Rightarrow> column \<Rightarrow> error + 'a list" where
  "column_of df c =
     (case filter (\<lambda>(c', xs). c' = c) df of
        [] \<Rightarrow> Inl (KeyError c)
      | [(c', xs)] \<Rightarrow> Inr xs
      | _ \<Rightarrow> Inl ValueError)"

text \<open>
  \<^verbatim>\<open>pd.to_datetime(xs, unit="ms")\<close>: milliseconds since the epoch become time stamps,
  stored as nanoseconds in 64 bits; a value outside that range is an error. A whole
  number of milliseconds converts exactly. A fraction of a millisecond is rounded to the
  nearest nanosecond, a half upwards here; pandas may round a half the other way.
\<close>

definition to_datetime :: "rat list \<Rightarrow> error + int list" where
  "to_datetime xs =
     (let ns = map (\<lambda>x. round (x * 1000000)) xs
      in if list_ex (\<lambda>n. n < - (2 ^ 63 - 1) \<or> 2 ^ 63 - 1 < n) ns
         then Inl OutOfBoundsDatetime else Inr ns)"

text \<open>
  The sum of a column within each group: \<open>keys\<close> holds the key of every row, \<open>groups\<close>
  the keys of the result.
\<close>

definition group_sum :: "'k list \<Rightarrow> 'k list \<Rightarrow> rat list \<Rightarrow> rat list" where
  "group_sum groups keys xs =
     map (\<lambda>k. sum_list (map snd (filter (\<lambda>(k', x). k' = k) (zip keys xs)))) groups"

text \<open>
  \<^verbatim>\<open>df.groupby(['square_id', 'time_interval']).sum().reset_index()\<close>, then the conversion
  of \<^verbatim>\<open>time_interval\<close>, which \<^verbatim>\<open>set_index\<close> makes the index. The groups come out in
  ascending order of their keys.
\<close>

definition aggregate_data :: "rat frame \<Rightarrow> error + ts_frame" where
  "aggregate_data df =
     (case column_of df Square_id of
        Inl e \<Rightarrow> Inl e
      | Inr sq \<Rightarrow>
          (case column_of df Time_interval of
             Inl e \<Rightarrow> Inl e
           | Inr ti \<Rightarrow>
               (let keys = zip sq ti;
                    groups = sort (remdups keys);
                    summed = map (\<lambda>(c, xs). (c, group_sum groups keys xs))
                               (filter (\<lambda>(c, xs). c \<noteq> Square_id \<and> c \<noteq> Time_interval) df)
                in case to_datetime (map snd groups) of
                     Inl e \<Rightarrow> Inl e
                   | Inr stamps \<Rightarrow>
                       Inr \<lparr>index = stamps, data = (Square_id, map fst groups) # summed\<rparr>)))"

section \<open>Resampler\<close>

text \<open>Lengths of a day and of an hour (the frequency \<^verbatim>\<open>'H'\<close>) in nanoseconds.\<close>

definition day_nanos :: int where
  "day_nanos = 86400000000000"

definition freq_H :: int where
  "freq_H = 3600000000000"

text \<open>
  The bin edges of \<^verbatim>\<open>resample\<close> for a fixed-duration frequency, with the defaults
  \<^verbatim>\<open>closed='left'\<close>, \<^verbatim>\<open>label='left'\<close> and \<^verbatim>\<open>origin='start_day'\<close>: the origin is midnight
  of the day of the first time stamp, the first edge is the last multiple of the
  frequency from that origin that is not after the first time stamp, and the last edge
  is the first one after the last time stamp.
\<close>

definition first_edge :: "int \<Rightarrow> int \<Rightarrow> int" where
  "first_edge freq t_first =
     (let origin = (t_first div day_nanos) * day_nanos;
          foffset = (t_first - origin) mod freq
      in if foffset > 0 then t_first - foffset else t_first)"

definition last_edge :: "int \<Rightarrow> int \<Rightarrow> int \<Rightarrow> int" where
  "last_edge freq t_first t_last =
     (let origin = (t_first div day_nanos) * day_nanos;
          loffset = (t_last - origin) mod freq
      in if loffset > 0 then t_last + (freq - loffset) else t_last + freq)"

text \<open>The sum of the values whose time stamp lies in the bin \<open>[b, b + freq)\<close>.\<close>

definition bucket_sum :: "(int \<times> rat) list \<Rightarrow> int \<Rightarrow> int \<Rightarrow> rat" where
  "bucket_sum xs b freq = sum_list (map snd (filter (\<lambda>(t, x). b \<le> t \<and> t < b + freq) xs))"

text \<open>
  \<^verbatim>\<open>.resample(frequency)[...].agg('sum')\<close> on the rows of one group, each a time stamp
  and a value: one row per bin from the first edge to the last, labelled by the bin's
  left edge, an empty bin summing to 0.
\<close>

definition resample_sum :: "int \<Rightarrow> (int \<times> rat) list \<Rightarrow> (int \<times> rat) list" where
  "resample_sum freq xs =
     (case xs of
        [] \<Rightarrow> []
      | (t0, _) # _ \<Rightarrow>
          (let t_first = fold min (map fst xs) t0;
               t_last = fold max (map fst xs) t0;
               lo = first_edge freq t_first;
               hi = last_edge freq t_first t_last
           in map (\<lambda>k. let b = lo + int k * freq in (b, bucket_sum xs b freq))
                  [0..<nat ((hi - lo) div freq)]))"

text \<open>
  The rows of one square in a time-indexed frame, each a time stamp and its traffic:
  the group of \<^verbatim>\<open>groupby('square_id')\<close> for the square \<open>s\<close>.
\<close>

definition group_rows :: "rat list \<Rightarrow> int list \<Rightarrow> rat list \<Rightarrow> rat \<Rightarrow> (int \<times> rat) list" where
  "group_rows sq stamps tr s = map snd (filter (\<lambda>(s', tx). s' = s) (zip sq (zip stamps tr)))"

text \<open>
  \<^verbatim>\<open>df.groupby('square_id').resample(frequency)['internet_traffic'].agg('sum')
  .loc[lambda x: x>0].reset_index()\<close>. The frequency is a fixed duration in nanoseconds;
  one that is not positive is rejected, whatever the exception pandas raises for it
  (and pandas raises none when the frame has no row). The groups come out in ascending
  order of the square. Time stamps are unbounded integers here: a bin edge past the
  64-bit range is not modelled.
\<close>

definition resample_data :: "ts_frame \<Rightarrow> int \<Rightarrow> error + out_row list" where
  "resample_data df frequency =
     (case column_of (data df) Square_id of
        Inl e \<Rightarrow> Inl e
      | Inr sq \<Rightarrow>
          if frequency \<le> 0 then Inl ValueError
          else
            (case column_of (data df) Internet_traffic of
               Inl e \<Rightarrow> Inl e
             | Inr tr \<Rightarrow>
                 Inr (filter (\<lambda>(s, b, x). x > 0)
                        (concat (map (\<lambda>s. map (\<lambda>(b, x). (s, b, x))
                                         (resample_sum frequency (group_rows sq (index df) tr s)))
                                     (sort (remdups sq)))))))"

section \<open>Per-file pipeline and directory driver\<close>

text \<open>
  The destination folder is the list of the files written so far, each with its rows;
  \<^verbatim>\<open>to_csv\<close> adds one. \<^verbatim>\<open>clean_data\<close> calls \<^verbatim>\<open>resample_data(df)\<close> with no frequency,
  so the default \<^verbatim>\<open>'H'\<close> applies.
\<close>

type_synonym destination = "(string \<times> out_row list) list"

definition clean_data ::
  "directory \<Rightarrow> string \<Rightarrow> column list \<Rightarrow> string \<Rightarrow> destination \<Rightarrow> error + destination" where
  "clean_data src file_path selected_columns destination_path dst =
     (case read_and_preprocess src (file_path @ ''.txt'') selected_columns of
        Inl e \<Rightarrow> Inl e
      | Inr df \<Rightarrow>
          (case aggregate_data df of
             Inl e \<Rightarrow> Inl e
           | Inr agg \<Rightarrow>
               (case resample_data agg freq_H of
                  Inl e \<Rightarrow> Inl e
                | Inr out \<Rightarrow> Inr (dst @ [(destination_path @ ''.csv'', out)]))))"

text \<open>\<^verbatim>\<open>file.endswith('.txt')\<close>.\<close>

definition endswith :: "string \<Rightarrow> string \<Rightarrow> bool" where
  "endswith s suffix =
     (length suffix \<le> length s \<and> drop (length s - length suffix) s = suffix)"

text \<open>
  \<^verbatim>\<open>os.path.splitext\<close> on a file name without directory part: the extension starts at
  the last dot, unless only dots come before it.
\<close>

definition splitext :: "string \<Rightarrow> string \<times> string" where
  "splitext p =
     (let root = rev (drop 1 (dropWhile (\<lambda>c. c \<noteq> CHR ''.'') (rev p)))
      in if CHR ''.'' \<in> set p \<and> list_ex (\<lambda>c. c \<noteq> CHR ''.'') root
         then (root, drop (length root) p) else (p, []))"

text \<open>
  The loop of \<^verbatim>\<open>process_files\<close>: an exception of \<^verbatim>\<open>clean_data\<close> is not caught, so it
  ends the loop. The result is the destination folder and the exception, if any.
\<close>

fun process_loop ::
  "directory \<Rightarrow> column list \<Rightarrow> string list \<Rightarrow> destination \<Rightarrow> destination \<times> error option" where
  "process_loop src selected_columns [] dst = (dst, None)"
| "process_loop src selected_columns (file_name # file_list) dst =
     (let base_name = fst (splitext file_name)
      in case clean_data src base_name selected_columns (''cleaned-'' @ base_name) dst of
           Inl e \<Rightarrow> (dst, Some e)
         | Inr dst' \<Rightarrow> process_loop src selected_columns file_list dst')"

definition process_files ::
  "directory \<Rightarrow> destination \<Rightarrow> column list \<Rightarrow> destination \<times> error option" where
  "process_files src dst selected_columns =
     process_loop src selected_columns
       (filter (\<lambda>file. endswith file ''.txt'') (map fst src)) dst"

section \<open>Notions used to state the properties\<close>

text \<open>
  The rows of the square \<open>s\<close> that \<^verbatim>\<open>resample_data\<close> reads from an aggregated frame,
  each a time stamp and its traffic.
\<close>

definition square_rows :: "ts_frame \<Rightarrow> rat \<Rightarrow> (int \<times> rat) list" where
  "square_rows df s =
     (case (column_of (data df) Square_id, column_of (data df) Internet_traffic) of
        (Inr sq, Inr tr) \<Rightarrow> group_rows sq (index df) tr s
      | _ \<Rightarrow> [])"

text \<open>The pair (square, bucket) of an output row.\<close>

definition bucket_key :: "out_row \<Rightarrow> rat \<times> int" where
  "bucket_key r = (fst r, fst (snd r))"



text \<open>
  Processing one file of the source folder on its own, into an empty destination, as the
  loop of \<^verbatim>\<open>process_files\<close> calls \<^verbatim>\<open>clean_data\<close>; whether that succeeds; and the file
  it writes.
\<close>

definition cleaned_file :: "directory \<Rightarrow> column list \<Rightarrow> string \<Rightarrow> error + destination" where
  "cleaned_file src selected_columns file_name =
     clean_data src (fst (splitext file_name)) selected_columns
       (''cleaned-'' @ fst (splitext file_name)) []"

definition file_ok :: "directory \<Rightarrow> column list \<Rightarrow> string \<Rightarrow> bool" where
  "file_ok src selected_columns file_name = (\<not> isl (cleaned_file src selected_columns file_name))"

definition written :: "directory \<Rightarrow> column list \<Rightarrow> string \<Rightarrow> destination" where
  "written src selected_columns file_name =
     (case cleaned_file src selected_columns file_name of Inl e \<Rightarrow> [] | Inr out \<Rightarrow> out)"

text \<open>
  The per-file pipeline as the specification's configuration surface describes it, with
  the frequency a parameter that reaches the resampler. The notebook has no such
  function; it is here to be compared with \<^verbatim>\<open>clean_data\<close>.
\<close>

definition clean_data_with_frequency ::
  "int \<Rightarrow> directory \<Rightarrow> string \<Rightarrow> column list \<Rightarrow> string \<Rightarrow> destination \<Rightarrow> error + destination" where
  "clean_data_with_frequency frequency src file_path selected_columns destination_path dst =
     (case read_and_preprocess src (file_path @ ''.txt'') selected_columns of
        Inl e \<Rightarrow> Inl e
      | Inr df \<Rightarrow>
          (case aggregate_data df of
             Inl e \<Rightarrow> Inl e
           | Inr agg \<Rightarrow>
               (case resample_data agg frequency of
                  Inl e \<Rightarrow> Inl e
                | Inr out \<Rightarrow> Inr (dst @ [(destination_path @ ''.csv'', out)]))))"

subsection \<open>Example inputs\<close>

text \<open>
  One square with four aggregated rows, at 00:00, 00:30, 01:00 and 02:00 of the first
  day: the first hour sums to \<open>-2\<close>, the second to \<open>5\<close>, the third to \<open>0\<close>.
\<close>

definition ex_negative :: ts_frame where
  "ex_negative = \<lparr>index = [0, 1800000000000, 3600000000000, 7200000000000],
                  data = [(Square_id, [1, 1, 1, 1]), (Internet_traffic, [-3, 1, 5, 0])]\<rparr>"

text \<open>
  A directory with one file of four records: square 7 at 10:05, 10:40 and 11:10 with
  traffic 4, 6 and 1, square 8 at 10:40 with traffic 0; \<^verbatim>\<open>sms_in\<close> is empty in the
  first two.
\<close>

definition ex_src :: directory where
  "ex_src = [(''day1.txt'',
      [[Some 7, Some 36300000, Some 39, None, Some 1, Some 0, Some 2, Some 4],
       [Some 7, Some 38400000, Some 39, None, Some 1, Some 0, Some 2, Some 6],
       [Some 7, Some 40200000, Some 39, Some 1, Some 1, Some 0, Some 2, Some 1],
       [Some 8, Some 38400000, Some 39, Some 2, Some 1, Some 0, Some 2, Some 0]])]"

text \<open>
  Two squares on the first day: square 7 at 10:05, 10:40 and 11:10 with traffic 4, 6
  and 1, square 8 at 10:40 with traffic 2.
\<close>

definition ex_hours :: ts_frame where
  "ex_hours = \<lparr>index = [36300000000000, 38400000000000, 40200000000000, 38400000000000],
               data = [(Square_id, [7, 7, 7, 8]), (Internet_traffic, [4, 6, 1, 2])]\<rparr>"

text \<open>
  The scenario of the specification: square 7 at 10:05 and 10:40 of the first day with
  traffic 4 and 6; and the same rows one day later.
\<close>

definition ex_scenario :: ts_frame where
  "ex_scenario = \<lparr>index = [36300000000000, 38400000000000],
                  data = [(Square_id, [7, 7]), (Internet_traffic, [4, 6])]\<rparr>"

definition ex_day2 :: ts_frame where
  "ex_day2 = \<lparr>index = [122700000000000, 124800000000000],
              data = [(Square_id, [7, 7]), (Internet_traffic, [4, 6])]\<rparr>"

text \<open>
  A file of two lines with three fields each instead of eight, and a directory of two
  files, the first of which has a line of nine fields.
\<close>

definition ex_short :: directory where
  "ex_short = [(''short.txt'', [[Some 1, Some 1383260400000, Some 5],
                                [Some 2, Some 1383260400000, Some 7]])]"

definition ex_batch :: directory where
  "ex_batch =
     [(''a.txt'', [[Some 1, Some 0, Some 39, Some 0, Some 0, Some 0, Some 0, Some 5],
                   [Some 1, Some 600000, Some 39, Some 0, Some 0, Some 0, Some 0, Some 5, Some 9]]),
      (''b.txt'', [[Some 2, Some 0, Some 39, Some 0, Some 0, Some 0, Some 0, Some 3]])]"

text \<open>
  A loaded frame of four records in two columns besides the keys: square 7 twice at
  10:40 and once at 10:05, square 8 at 10:40 with no traffic.
\<close>

definition ex_frame :: "rat frame" where
  "ex_frame = [(Square_id, [7, 7, 8, 7]),
               (Time_interval, [38400000, 36300000, 38400000, 38400000]),
               (Sms_in, [1, 2, 0, 4]),
               (Internet_traffic, [3, 4, 0, 2])]"

section \<open>Properties of the loader\<close>

lemma distinct_names: "distinct names"
  by (simp add: names_def)

lemma names_all: "c \<in> set names"
  by (cases c) (simp_all add: names_def)

lemma read_csv_names:
  assumes "read_csv src file_path = Inr raw"
  shows "map fst raw = names"
proof -
  have "map (\<lambda>j. names ! j) [0..<length names] = names"
    by (rule map_nth)
  with assms show ?thesis
    by (auto simp: read_csv_def Let_def comp_def split: option.splits if_splits)
qed

lemma read_csv_column:
  assumes "read_csv src file_path = Inr raw"
  shows "\<exists>xs. map_of raw c = Some xs"
proof -
  have "c \<in> fst ` set raw"
    using read_csv_names [OF assms] names_all [of c] by (metis set_map)
  then show ?thesis
    by (cases "map_of raw c") (auto simp: map_of_eq_None_iff)
qed

lemma map_of_fillna:
  "map_of (fillna v df) c = map_option (map (\<lambda>x. case x of None \<Rightarrow> v | Some y \<Rightarrow> y)) (map_of df c)"
  by (induction df) (auto simp: fillna_def)

lemma select_columns_Inr:
  assumes "select_columns df sel = Inr out"
  shows "map fst out = sel \<and> (\<forall>(c, xs) \<in> set out. map_of df c = Some xs)"
  using assms
  by (induction sel arbitrary: out) (auto split: option.splits sum.splits)

lemma select_columns_total:
  assumes "\<And>c. c \<in> set sel \<Longrightarrow> map_of df c \<noteq> None"
  shows "\<exists>out. select_columns df sel = Inr out"
  using assms
  by (induction sel) (auto split: option.splits sum.splits)

lemma ex_src_raw:
  "read_csv ex_src ''day1.txt'' = Inr
     [(Square_id, [Some 7, Some 7, Some 7, Some 8]),
      (Time_interval, [Some 36300000, Some 38400000, Some 40200000, Some 38400000]),
      (Country_code, [Some 39, Some 39, Some 39, Some 39]),
      (Sms_in, [None, None, Some 1, Some 2]),
      (Sms_out, [Some 1, Some 1, Some 1, Some 1]),
      (Call_in, [Some 0, Some 0, Some 0, Some 0]),
      (Call_out, [Some 2, Some 2, Some 2, Some 2]),
      (Internet_traffic, [Some 4, Some 6, Some 1, Some 0])]"
  by code_simp

lemma read_csv_Inl:
  assumes "map_of src file_path = Some content"
  shows "read_csv src file_path = Inl e \<longleftrightarrow>
         e = ParserError \<and>
         (\<exists>first rest. filter (\<lambda>l. l \<noteq> []) content = first # rest
            \<and> (\<exists>l \<in> set rest. max (length first) (length names) < length l))"
proof (cases "filter (\<lambda>l. l \<noteq> []) content")
  case Nil
  then show ?thesis
    by (simp add: read_csv_def assms)
next
  case (Cons first rest)
  then show ?thesis
    by (auto simp: read_csv_def assms Let_def list_ex_iff)
qed

text \<open>
  Claim C3. In the frame that \<^verbatim>\<open>read_csv\<close> returns, \<^verbatim>\<open>fillna(0)\<close> replaces every
  missing value of each of the eight columns by 0 and leaves the other values; the
  projection on the selected columns comes after, so the loader returns the selected
  columns with 0 for every missing field.
\<close>

theorem missing_fields_become_zero:
  assumes "read_csv src file_path = Inr raw"
  shows "map fst (fillna 0 raw) = names
       \<and> (\<forall>c \<in> set names. \<exists>xs. map_of raw c = Some xs
            \<and> map_of (fillna 0 raw) c = Some (map (\<lambda>x. case x of None \<Rightarrow> 0 | Some y \<Rightarrow> y) xs))
       \<and> read_and_preprocess src file_path selected_columns
            = select_columns (fillna 0 raw) selected_columns
       \<and> (\<exists>df. read_and_preprocess src file_path selected_columns = Inr df
            \<and> map fst df = selected_columns
            \<and> (\<forall>(c, ys) \<in> set df. \<exists>xs. map_of raw c = Some xs
                 \<and> ys = map (\<lambda>x. case x of None \<Rightarrow> 0 | Some y \<Rightarrow> y) xs))"
proof (intro conjI)
  show "map fst (fillna 0 raw) = names"
    using read_csv_names [OF assms] by (simp add: fillna_def comp_def case_prod_beta)
  show "\<forall>c \<in> set names. \<exists>xs. map_of raw c = Some xs
            \<and> map_of (fillna 0 raw) c = Some (map (\<lambda>x. case x of None \<Rightarrow> 0 | Some y \<Rightarrow> y) xs)"
  proof
    fix c
    obtain xs where "map_of raw c = Some xs"
      using read_csv_column [OF assms, of c] by blast
    then show "\<exists>xs. map_of raw c = Some xs
            \<and> map_of (fillna 0 raw) c = Some (map (\<lambda>x. case x of None \<Rightarrow> 0 | Some y \<Rightarrow> y) xs)"
      by (simp add: map_of_fillna)
  qed
  show rp: "read_and_preprocess src file_path selected_columns
            = select_columns (fillna 0 raw) selected_columns"
    by (simp add: read_and_preprocess_def assms)
  have "map_of (fillna 0 raw) c \<noteq> None" for c
    using read_csv_column [OF assms, of c] by (auto simp: map_of_fillna)
  then obtain df where df: "select_columns (fillna 0 raw) selected_columns = Inr df"
    using select_columns_total [of selected_columns "fillna 0 raw"] by blast
  have "\<exists>xs. map_of raw c = Some xs \<and> ys = map (\<lambda>x. case x of None \<Rightarrow> 0 | Some y \<Rightarrow> y) xs"
    if "(c, ys) \<in> set df" for c ys
  proof -
    have "map_of (fillna 0 raw) c = Some ys"
      using select_columns_Inr [OF df] that by auto
    then show ?thesis
      by (auto simp: map_of_fillna)
  qed
  with df select_columns_Inr [OF df]
  show "\<exists>df. read_and_preprocess src file_path selected_columns = Inr df
            \<and> map fst df = selected_columns
            \<and> (\<forall>(c, ys) \<in> set df. \<exists>xs. map_of raw c = Some xs
                 \<and> ys = map (\<lambda>x. case x of None \<Rightarrow> 0 | Some y \<Rightarrow> y) xs)"
    unfolding rp by auto
qed

theorem missing_fields_become_zero_witness:
  "read_csv ex_src ''day1.txt'' = Inr
     [(Square_id, [Some 7, Some 7, Some 7, Some 8]),
      (Time_interval, [Some 36300000, Some 38400000, Some 40200000, Some 38400000]),
      (Country_code, [Some 39, Some 39, Some 39, Some 39]),
      (Sms_in, [None, None, Some 1, Some 2]),
      (Sms_out, [Some 1, Some 1, Some 1, Some 1]),
      (Call_in, [Some 0, Some 0, Some 0, Some 0]),
      (Call_out, [Some 2, Some 2, Some 2, Some 2]),
      (Internet_traffic, [Some 4, Some 6, Some 1, Some 0])]
   \<and> read_and_preprocess ex_src ''day1.txt'' [Square_id, Sms_in]
       = Inr [(Square_id, [7, 7, 7, 8]), (Sms_in, [0, 0, 1, 2])]"
  using missing_fields_become_zero [OF ex_src_raw, of "[Square_id, Sms_in]"] ex_src_raw
  by (simp add: fillna_def)

text \<open>
  Claim C8, as amended. The loader has no check of its own and no error named
  \<^verbatim>\<open>MalformedInputError\<close>: reading an existing file fails exactly when a line after the
  first one that is not blank has more fields than both the first line and the eight
  names, and the error is the parser's. A line with fewer than eight fields is accepted
  and its absent fields are missing values.
\<close>

theorem loader_failure:
  assumes "map_of src file_path = Some content"
  shows "read_and_preprocess src file_path selected_columns = Inl e \<longleftrightarrow>
         e = ParserError \<and>
         (\<exists>first rest. filter (\<lambda>l. l \<noteq> []) content = first # rest
            \<and> (\<exists>l \<in> set rest. max (length first) (length names) < length l))"
proof (cases "read_csv src file_path")
  case (Inr raw)
  have "map_of (fillna 0 raw) c \<noteq> None" for c
    using read_csv_column [OF Inr, of c] by (auto simp: map_of_fillna)
  then obtain df where "select_columns (fillna 0 raw) selected_columns = Inr df"
    using select_columns_total [of selected_columns "fillna 0 raw"] by blast
  then have "read_and_preprocess src file_path selected_columns = Inr df"
    by (simp add: read_and_preprocess_def Inr)
  moreover have "read_csv src file_path \<noteq> Inl e"
    by (simp add: Inr)
  ultimately show ?thesis
    using read_csv_Inl [OF assms, of e] by simp
next
  case (Inl e')
  then have "read_and_preprocess src file_path selected_columns = Inl e \<longleftrightarrow> read_csv src file_path = Inl e"
    by (simp add: read_and_preprocess_def)
  then show ?thesis
    using read_csv_Inl [OF assms, of e] by simp
qed

theorem loader_failure_witness:
  "map_of ex_batch ''a.txt''
     = Some [[Some 1, Some 0, Some 39, Some 0, Some 0, Some 0, Some 0, Some 5],
             [Some 1, Some 600000, Some 39, Some 0, Some 0, Some 0, Some 0, Some 5, Some 9]]
   \<and> read_and_preprocess ex_batch ''a.txt'' [Square_id, Time_interval, Internet_traffic]
       = Inl ParserError"
proof -
  have m: "map_of ex_batch ''a.txt''
     = Some [[Some 1, Some 0, Some 39, Some 0, Some 0, Some 0, Some 0, Some 5],
             [Some 1, Some 600000, Some 39, Some 0, Some 0, Some 0, Some 0, Some 5, Some 9]]"
    by (simp add: ex_batch_def)
  from loader_failure [OF m, of "[Square_id, Time_interval, Internet_traffic]" ParserError]
  have "read_and_preprocess ex_batch ''a.txt'' [Square_id, Time_interval, Internet_traffic]
       = Inl ParserError"
    by (simp add: names_def)
  with m show ?thesis by simp
qed

text \<open>
  The claim as stated fails on lines with too few fields: the file of \<open>ex_short\<close> has two
  lines of three fields each, and the loader returns a frame, the third field read as
  the country code and the traffic filled with 0.
\<close>

theorem loader_accepts_short_line_counterexample:
  "map_of ex_short ''short.txt''
     = Some [[Some 1, Some 1383260400000, Some 5], [Some 2, Some 1383260400000, Some 7]]
   \<and> length [Some 1, Some 1383260400000, Some (5 :: rat)] \<noteq> length names
   \<and> length [Some 2, Some 1383260400000, Some (7 :: rat)] \<noteq> length names
   \<and> read_and_preprocess ex_short ''short.txt'' [Square_id, Time_interval, Internet_traffic]
       = Inr [(Square_id, [1, 2]), (Time_interval, [1383260400000, 1383260400000]),
              (Internet_traffic, [0, 0])]"
proof -
  have "read_and_preprocess ex_short ''short.txt'' [Square_id, Time_interval, Internet_traffic]
       = Inr [(Square_id, [1, 2]), (Time_interval, [1383260400000, 1383260400000]),
              (Internet_traffic, [0, 0])]"
    by code_simp
  then show ?thesis
    by (simp add: ex_short_def names_def)
qed

section \<open>Properties of the aggregator\<close>

lemma to_datetime_Inr:
  "to_datetime xs = Inr stamps \<Longrightarrow> stamps = map (\<lambda>x. round (x * 1000000)) xs"
  by (auto simp: to_datetime_def Let_def split: if_splits)

lemma group_sum_nth:
  "j < length groups \<Longrightarrow>
   group_sum groups keys xs ! j
     = sum_list (map snd (filter (\<lambda>(k, x). k = groups ! j) (zip keys xs)))"
  by (simp add: group_sum_def)

lemma column_of_aggregated:
  "column_of ((Square_id, ss) # map (\<lambda>(c, xs). (c, f xs))
       (filter (\<lambda>(c, xs). c \<noteq> Square_id \<and> c \<noteq> Time_interval) df)) Square_id = Inr ss"
proof -
  have "filter (\<lambda>(c', xs). c' = Square_id) (map (\<lambda>(c, xs). (c, f xs))
       (filter (\<lambda>(c, xs). c \<noteq> Square_id \<and> c \<noteq> Time_interval) df)) = []"
    by (auto simp: filter_empty_conv)
  then show ?thesis
    by (simp add: column_of_def)
qed

lemma aggregate_data_unfold:
  assumes "aggregate_data df = Inr agg"
  obtains sq ti where "column_of df Square_id = Inr sq" and "column_of df Time_interval = Inr ti"
    and "index agg = map (\<lambda>x. round (x * 1000000)) (map snd (sort (remdups (zip sq ti))))"
    and "data agg = (Square_id, map fst (sort (remdups (zip sq ti))))
           # map (\<lambda>(c, xs). (c, group_sum (sort (remdups (zip sq ti))) (zip sq ti) xs))
               (filter (\<lambda>(c, xs). c \<noteq> Square_id \<and> c \<noteq> Time_interval) df)"
proof -
  from assms obtain sq where sq: "column_of df Square_id = Inr sq"
    by (auto simp: aggregate_data_def split: sum.splits)
  from assms sq obtain ti where ti: "column_of df Time_interval = Inr ti"
    by (auto simp: aggregate_data_def split: sum.splits)
  from assms obtain stamps where st: "to_datetime (map snd (sort (remdups (zip sq ti)))) = Inr stamps"
    and agg: "agg = \<lparr>index = stamps, data = (Square_id, map fst (sort (remdups (zip sq ti))))
           # map (\<lambda>(c, xs). (c, group_sum (sort (remdups (zip sq ti))) (zip sq ti) xs))
               (filter (\<lambda>(c, xs). c \<noteq> Square_id \<and> c \<noteq> Time_interval) df)\<rparr>"
    by (auto simp: aggregate_data_def sq ti Let_def split: sum.splits)
  show ?thesis
    using that [OF sq ti] to_datetime_Inr [OF st] agg by simp
qed

text \<open>
  Claim C6. The aggregator groups the rows by equality of the pair (square_id,
  time_interval) and sums every other column within each group. No row is dropped: the
  result has one row per distinct pair of the input, and the row of a pair carries, in
  each column that is not a key, the sum over exactly the input rows with that pair,
  whether or not that sum is zero.
\<close>

theorem aggregate_groups_by_key:
  assumes "aggregate_data df = Inr agg"
    and "column_of df Square_id = Inr sq" and "column_of df Time_interval = Inr ti"
  shows "length (index agg) = card (set (zip sq ti))
       \<and> (\<forall>(s, t) \<in> set (zip sq ti). \<exists>j < length (index agg).
             index agg ! j = round (t * 1000000)
           \<and> (\<exists>ss. column_of (data agg) Square_id = Inr ss \<and> ss ! j = s)
           \<and> (\<forall>(c, xs) \<in> set df. c \<noteq> Square_id \<and> c \<noteq> Time_interval \<longrightarrow>
                (\<exists>ys. (c, ys) \<in> set (data agg)
                  \<and> ys ! j = sum_list (map snd (filter (\<lambda>(k, x). k = (s, t)) (zip (zip sq ti) xs))))))"
proof -
  define groups where "groups = sort (remdups (zip sq ti))"
  from assms(1) obtain sq' ti' where "column_of df Square_id = Inr sq'"
    and "column_of df Time_interval = Inr ti'"
    and "index agg = map (\<lambda>x. round (x * 1000000)) (map snd (sort (remdups (zip sq' ti'))))"
    and "data agg = (Square_id, map fst (sort (remdups (zip sq' ti'))))
           # map (\<lambda>(c, xs). (c, group_sum (sort (remdups (zip sq' ti'))) (zip sq' ti') xs))
               (filter (\<lambda>(c, xs). c \<noteq> Square_id \<and> c \<noteq> Time_interval) df)"
    by (rule aggregate_data_unfold)
  with assms(2,3) have idx: "index agg = map (\<lambda>x. round (x * 1000000)) (map snd groups)"
    and dat: "data agg = (Square_id, map fst groups)
           # map (\<lambda>(c, xs). (c, group_sum groups (zip sq ti) xs))
               (filter (\<lambda>(c, xs). c \<noteq> Square_id \<and> c \<noteq> Time_interval) df)"
    by (simp_all add: groups_def)
  have set_groups: "set groups = set (zip sq ti)" and dist: "distinct groups"
    by (simp_all add: groups_def)
  have len: "length (index agg) = length groups"
    by (simp add: idx)
  have "length groups = card (set (zip sq ti))"
    using distinct_card [OF dist] set_groups by simp
  with len have count: "length (index agg) = card (set (zip sq ti))"
    by simp
  have each: "\<exists>j < length (index agg).
             index agg ! j = round (t * 1000000)
           \<and> (\<exists>ss. column_of (data agg) Square_id = Inr ss \<and> ss ! j = s)
           \<and> (\<forall>(c, xs) \<in> set df. c \<noteq> Square_id \<and> c \<noteq> Time_interval \<longrightarrow>
                (\<exists>ys. (c, ys) \<in> set (data agg)
                  \<and> ys ! j = sum_list (map snd (filter (\<lambda>(k, x). k = (s, t)) (zip (zip sq ti) xs)))))"
    if "(s, t) \<in> set (zip sq ti)" for s t
  proof -
    from that set_groups have "(s, t) \<in> set groups"
      by simp
    then obtain j where j: "j < length groups" and g: "groups ! j = (s, t)"
      unfolding in_set_conv_nth by blast
    have "index agg ! j = round (t * 1000000)"
      using j g by (simp add: idx)
    moreover have "\<exists>ss. column_of (data agg) Square_id = Inr ss \<and> ss ! j = s"
      using j g unfolding dat column_of_aggregated by simp
    moreover have "\<exists>ys. (c, ys) \<in> set (data agg)
        \<and> ys ! j = sum_list (map snd (filter (\<lambda>(k, x). k = (s, t)) (zip (zip sq ti) xs)))"
      if "(c, xs) \<in> set df" and "c \<noteq> Square_id \<and> c \<noteq> Time_interval" for c xs
    proof -
      have "(c, group_sum groups (zip sq ti) xs) \<in> set (data agg)"
        using that unfolding dat by (auto intro!: rev_image_eqI [where x = "(c, xs)"])
      moreover have "group_sum groups (zip sq ti) xs ! j
          = sum_list (map snd (filter (\<lambda>(k, x). k = (s, t)) (zip (zip sq ti) xs)))"
        using group_sum_nth [OF j, of "zip sq ti" xs] by (simp add: g)
      ultimately show ?thesis by blast
    qed
    ultimately show ?thesis
      using j len by (intro exI [where x = j]) auto
  qed
  from count each show ?thesis by auto
qed

lemma ex_frame_aggregated:
  "aggregate_data ex_frame
     = Inr \<lparr>index = [36300000000000, 38400000000000, 38400000000000],
            data = [(Square_id, [7, 7, 8]), (Sms_in, [2, 5, 0]), (Internet_traffic, [4, 5, 0])]\<rparr>"
  by code_simp

theorem aggregate_groups_by_key_witness:
  "aggregate_data ex_frame
     = Inr \<lparr>index = [36300000000000, 38400000000000, 38400000000000],
            data = [(Square_id, [7, 7, 8]), (Sms_in, [2, 5, 0]), (Internet_traffic, [4, 5, 0])]\<rparr>
   \<and> column_of ex_frame Square_id = Inr [7, 7, 8, 7]
   \<and> column_of ex_frame Time_interval = Inr [38400000, 36300000, 38400000, 38400000]
   \<and> card (set (zip [7 :: rat, 7, 8, 7] [38400000 :: rat, 36300000, 38400000, 38400000])) = 3"
proof -
  have sq: "column_of ex_frame Square_id = Inr [7, 7, 8, 7]"
    and ti: "column_of ex_frame Time_interval = Inr [38400000, 36300000, 38400000, 38400000]"
    by (simp_all add: ex_frame_def column_of_def)
  from aggregate_groups_by_key [OF ex_frame_aggregated sq ti]
  have "card (set (zip [7 :: rat, 7, 8, 7] [38400000 :: rat, 36300000, 38400000, 38400000])) = 3"
    by simp
  with ex_frame_aggregated sq ti show ?thesis
    by simp
qed

section \<open>Properties of the resampler\<close>

lemma resample_sum_member:
  "(b, x) \<in> set (resample_sum freq xs) \<Longrightarrow> x = bucket_sum xs b freq"
  by (auto simp: resample_sum_def Let_def split: list.splits)

lemma resample_data_member:
  assumes "resample_data df frequency = Inr out" and "(s, b, x) \<in> set out"
  shows "(b, x) \<in> set (resample_sum frequency (square_rows df s)) \<and> 0 < x"
  using assms
  by (auto simp: resample_data_def square_rows_def split: sum.splits if_splits)

lemma resample_data_bucket:
  assumes "resample_data df frequency = Inr out" and "(s, b, x) \<in> set out"
  shows "x = bucket_sum (square_rows df s) b frequency" and "0 < x"
  using resample_data_member [OF assms] resample_sum_member by auto

lemma fold_min_le:
  fixes a :: int
  shows "fold min ts a \<le> a" and "t \<in> set ts \<Longrightarrow> fold min ts a \<le> t"
proof -
  have "fold min ts a \<le> a \<and> (\<forall>t \<in> set ts. fold min ts a \<le> t)"
  proof (induction ts arbitrary: a)
    case Nil
    then show ?case by simp
  next
    case (Cons u us)
    from Cons [of "min u a"] show ?case by auto
  qed
  then show "fold min ts a \<le> a" and "t \<in> set ts \<Longrightarrow> fold min ts a \<le> t"
    by auto
qed

lemma fold_max_ge:
  fixes a :: int
  shows "a \<le> fold max ts a" and "t \<in> set ts \<Longrightarrow> t \<le> fold max ts a"
proof -
  have "a \<le> fold max ts a \<and> (\<forall>t \<in> set ts. t \<le> fold max ts a)"
  proof (induction ts arbitrary: a)
    case Nil
    then show ?case by simp
  next
    case (Cons u us)
    from Cons [of "max u a"] show ?case by auto
  qed
  then show "a \<le> fold max ts a" and "t \<in> set ts \<Longrightarrow> t \<le> fold max ts a"
    by auto
qed

lemma fold_min_mem:
  fixes a :: int
  shows "fold min ts a \<in> insert a (set ts)"
proof (induction ts arbitrary: a)
  case Nil
  then show ?case by simp
next
  case (Cons u us)
  from Cons [of "min u a"] show ?case by (auto simp: min_def split: if_splits)
qed

lemma first_edge_props:
  assumes "0 < freq"
  shows "first_edge freq t \<le> t" and "t < first_edge freq t + freq"
    and "freq dvd first_edge freq t - (t div day_nanos) * day_nanos"
proof -
  define d where "d = t - (t div day_nanos) * day_nanos"
  have m: "0 \<le> d mod freq" "d mod freq < freq"
    using assms by simp_all
  have e: "first_edge freq t = t - d mod freq"
    using m(1) by (auto simp: first_edge_def Let_def d_def [symmetric])
  note m
  then show "first_edge freq t \<le> t" and "t < first_edge freq t + freq"
    unfolding e by linarith+
  have "first_edge freq t - (t div day_nanos) * day_nanos = d - d mod freq"
    unfolding e d_def by simp
  also have "freq dvd \<dots>"
    by (rule dvd_minus_mod)
  finally show "freq dvd first_edge freq t - (t div day_nanos) * day_nanos" .
qed

lemma last_edge_props:
  assumes "0 < freq"
  shows "u < last_edge freq t u"
    and "freq dvd last_edge freq t u - (t div day_nanos) * day_nanos"
proof -
  define d where "d = u - (t div day_nanos) * day_nanos"
  have m: "0 \<le> d mod freq" "d mod freq < freq"
    using assms by simp_all
  have e: "last_edge freq t u = u - d mod freq + freq"
    using m(1) by (auto simp: last_edge_def Let_def d_def [symmetric])
  note m
  then show "u < last_edge freq t u"
    unfolding e by linarith
  have "last_edge freq t u - (t div day_nanos) * day_nanos = (d - d mod freq) + freq"
    unfolding e d_def by simp
  also have "freq dvd \<dots>"
    by (intro dvd_add dvd_minus_mod dvd_refl)
  finally show "freq dvd last_edge freq t u - (t div day_nanos) * day_nanos" .
qed

text \<open>The bins of a group that is not empty.\<close>

lemma resample_sum_bins:
  assumes "xs \<noteq> []" and "0 < freq"
  obtains t_first n where
    "resample_sum freq xs =
       map (\<lambda>k. (first_edge freq t_first + int k * freq,
                 bucket_sum xs (first_edge freq t_first + int k * freq) freq)) [0..<n]"
    and "t_first \<in> fst ` set xs"
    and "\<And>t x. (t, x) \<in> set xs \<Longrightarrow>
           first_edge freq t_first \<le> t \<and> t < first_edge freq t_first + int n * freq"
proof -
  obtain t0 x0 ps where xs: "xs = (t0, x0) # ps"
    using assms(1) by (cases xs) auto
  define t_first where "t_first = fold min (map fst ps) t0"
  define t_last where "t_last = fold max (map fst ps) t0"
  define lo where "lo = first_edge freq t_first"
  define hi where "hi = last_edge freq t_first t_last"
  define n where "n = nat ((hi - lo) div freq)"
  have rs: "resample_sum freq xs =
      map (\<lambda>k. (lo + int k * freq, bucket_sum xs (lo + int k * freq) freq)) [0..<n]"
    unfolding xs lo_def hi_def n_def t_first_def t_last_def
    by (simp add: resample_sum_def Let_def)
  have mem: "t_first \<in> fst ` set xs"
    using fold_min_mem [where ts = "map fst ps" and a = t0] by (auto simp: t_first_def xs)
  have "freq dvd (hi - (t_first div day_nanos) * day_nanos) - (lo - (t_first div day_nanos) * day_nanos)"
    unfolding hi_def lo_def
    by (intro dvd_diff first_edge_props(3) last_edge_props(2) assms(2))
  then have dvd: "freq dvd hi - lo"
    by simp
  have bounds: "lo \<le> t \<and> t < hi" if "(t, x) \<in> set xs" for t x
  proof -
    have "t = t0 \<or> t \<in> set (map fst ps)"
      using that by (force simp: xs)
    then have "t_first \<le> t" and "t \<le> t_last"
      unfolding t_first_def t_last_def
      using fold_min_le [where ts = "map fst ps" and a = t0]
        fold_max_ge [where ts = "map fst ps" and a = t0]
      by blast+
    moreover have "lo \<le> t_first" and "t_last < hi"
      unfolding lo_def hi_def
      by (rule first_edge_props(1) [OF assms(2)], rule last_edge_props(1) [OF assms(2)])
    ultimately show ?thesis by linarith
  qed
  have "lo < hi"
    using bounds [of t0 x0] by (simp add: xs)
  then have "0 \<le> (hi - lo) div freq"
    using assms(2) by (simp add: pos_imp_zdiv_nonneg_iff)
  then have "int n = (hi - lo) div freq"
    by (simp add: n_def)
  then have "int n * freq = hi - lo"
    using dvd_div_mult_self [OF dvd] by simp
  then have "lo \<le> t \<and> t < lo + int n * freq" if "(t, x) \<in> set xs" for t x
    using bounds [OF that] by simp
  then show ?thesis
    using rs mem that [of t_first n] unfolding lo_def by blast
qed

lemma resample_sum_distinct:
  assumes "0 < freq"
  shows "distinct (map fst (resample_sum freq xs))"
proof (cases "xs = []")
  case True
  then show ?thesis by (simp add: resample_sum_def)
next
  case False
  obtain t_first n where
    "resample_sum freq xs =
       map (\<lambda>k. (first_edge freq t_first + int k * freq,
                 bucket_sum xs (first_edge freq t_first + int k * freq) freq)) [0..<n]"
    by (rule resample_sum_bins [OF False assms])
  moreover have "inj_on (\<lambda>k. first_edge freq t_first + int k * freq) (set [0..<n])"
    using assms by (auto simp: inj_on_def)
  ultimately show ?thesis
    by (simp add: distinct_map comp_def)
qed

lemma bucket_key_Pair: "bucket_key (s, bx) = (s, fst bx)"
  by (simp add: bucket_key_def)

lemma distinct_keys_concat:
  assumes "distinct ss" and "\<And>s. distinct (map fst (g s))"
  shows "distinct (map bucket_key (concat (map (\<lambda>s. map (Pair s) (g s)) ss)))"
  using assms(1)
proof (induction ss)
  case Nil
  then show ?case by simp
next
  case (Cons s ss)
  have "distinct (map (bucket_key \<circ> Pair s) (g s))"
    using assms(2) [of s] by (simp add: distinct_map inj_on_def bucket_key_Pair comp_def)
  moreover have "(bucket_key \<circ> Pair s) ` set (g s)
      \<inter> bucket_key ` (\<Union>x\<in>set ss. Pair x ` set (g x)) = {}"
    using Cons.prems by (auto simp: bucket_key_Pair)
  ultimately show ?case
    using Cons by (simp add: comp_def)
qed

lemma resample_data_unfold:
  assumes "resample_data df frequency = Inr out"
  obtains sq tr where "column_of (data df) Square_id = Inr sq"
    and "column_of (data df) Internet_traffic = Inr tr"
    and "0 < frequency"
    and "out = filter (\<lambda>(s, b, x). 0 < x)
          (concat (map (\<lambda>s. map (Pair s) (resample_sum frequency (group_rows sq (index df) tr s)))
             (sort (remdups sq))))"
proof -
  have "(\<lambda>(b, x). (s, b, x)) = Pair s" for s :: rat
    by auto
  with assms that show ?thesis
    by (auto simp: resample_data_def split: sum.splits if_splits)
qed

lemma resample_data_distinct:
  assumes "resample_data df frequency = Inr out"
  shows "distinct (map bucket_key out)"
proof -
  from assms obtain sq tr where "column_of (data df) Square_id = Inr sq"
    and "column_of (data df) Internet_traffic = Inr tr"
    and f: "0 < frequency" and out: "out = filter (\<lambda>(s, b, x). 0 < x)
          (concat (map (\<lambda>s. map (Pair s) (resample_sum frequency (group_rows sq (index df) tr s)))
             (sort (remdups sq))))"
    by (rule resample_data_unfold)
  show ?thesis
    unfolding out
    by (intro distinct_map_filter distinct_keys_concat resample_sum_distinct f) simp
qed


lemma bin_index_unique:
  fixes freq lo t :: int
  assumes "0 < freq"
  shows "(lo + int k * freq \<le> t \<and> t < lo + int k * freq + freq) \<longleftrightarrow>
         (lo \<le> t \<and> k = nat ((t - lo) div freq))"
proof
  assume a: "lo + int k * freq \<le> t \<and> t < lo + int k * freq + freq"
  have "(t - lo) div freq = int k"
    by (rule int_div_pos_eq [where r = "t - lo - int k * freq"]) (use a in \<open>simp_all add: algebra_simps\<close>)
  moreover have "lo \<le> t"
  proof -
    have "0 \<le> int k * freq" using assms by simp
    with a show ?thesis by linarith
  qed
  ultimately show "lo \<le> t \<and> k = nat ((t - lo) div freq)"
    by simp
next
  assume b: "lo \<le> t \<and> k = nat ((t - lo) div freq)"
  define d where "d = t - lo"
  have "0 \<le> d" using b by (simp add: d_def)
  then have "0 \<le> d div freq"
    using assms by (simp add: pos_imp_zdiv_nonneg_iff)
  then have k: "int k = d div freq"
    using b by (simp add: d_def)
  have "d div freq * freq + d mod freq = d"
    by simp
  moreover have "0 \<le> d mod freq" and "d mod freq < freq"
    using assms by simp_all
  ultimately have "int k * freq \<le> d \<and> d < int k * freq + freq"
    unfolding k by linarith
  then show "lo + int k * freq \<le> t \<and> t < lo + int k * freq + freq"
    by (simp add: d_def)
qed


lemma filter_square_concat:
  assumes "distinct ss"
  shows "filter (\<lambda>r. fst r = s) (concat (map (\<lambda>s'. map (Pair s') (g s')) ss))
         = (if s \<in> set ss then map (Pair s) (g s) else [])"
  using assms
proof (induction ss)
  case Nil
  then show ?case by simp
next
  case (Cons a ss)
  have "filter (\<lambda>r. fst r = s) (map (Pair a) (g a)) = (if a = s then map (Pair a) (g a) else [])"
    by (auto simp: filter_map comp_def)
  with Cons show ?case by auto
qed

lemma group_rows_absent:
  "s \<notin> set sq \<Longrightarrow> group_rows sq stamps tr s = []"
  by (auto simp: group_rows_def filter_empty_conv dest: set_zip_leftD)

text \<open>The output rows of one square are the bins of that square with a positive sum.\<close>

lemma resample_data_square:
  assumes "resample_data df frequency = Inr out"
  shows "filter (\<lambda>r. fst r = s) out
         = map (Pair s) (filter (\<lambda>bx. 0 < snd bx) (resample_sum frequency (square_rows df s)))"
proof -
  from assms obtain sq tr where sq: "column_of (data df) Square_id = Inr sq"
    and tr: "column_of (data df) Internet_traffic = Inr tr"
    and f: "0 < frequency" and out: "out = filter (\<lambda>(s, b, x). 0 < x)
          (concat (map (\<lambda>s. map (Pair s) (resample_sum frequency (group_rows sq (index df) tr s)))
             (sort (remdups sq))))"
    by (rule resample_data_unfold)
  have rows: "square_rows df s = group_rows sq (index df) tr s" for s
    by (simp add: square_rows_def sq tr)
  have "filter (\<lambda>r. fst r = s) out = filter (\<lambda>(s, b, x). 0 < x)
      (filter (\<lambda>r. fst r = s) (concat (map (\<lambda>s. map (Pair s) (resample_sum frequency (square_rows df s)))
             (sort (remdups sq)))))"
    unfolding out rows by (simp add: conj_commute)
  also have "\<dots> = filter (\<lambda>(s, b, x). 0 < x)
      (if s \<in> set sq then map (Pair s) (resample_sum frequency (square_rows df s)) else [])"
    by (subst filter_square_concat) simp_all
  also have "\<dots> = filter (\<lambda>(s, b, x). 0 < x) (map (Pair s) (resample_sum frequency (square_rows df s)))"
    using group_rows_absent [of s sq "index df" tr]
    by (auto simp: rows resample_sum_def)
  also have "\<dots> = map (Pair s) (filter (\<lambda>bx. 0 < snd bx) (resample_sum frequency (square_rows df s)))"
    by (simp add: filter_map comp_def case_prod_beta)
  finally show ?thesis .
qed

lemma first_edge_dvd:
  assumes "0 < freq" and "freq dvd day_nanos"
  shows "freq dvd first_edge freq t"
proof -
  have "freq dvd (first_edge freq t - (t div day_nanos) * day_nanos) + (t div day_nanos) * day_nanos"
    by (intro dvd_add first_edge_props(3) assms(1) dvd_mult assms(2))
  then show ?thesis by simp
qed

lemma floor_bin:
  fixes freq lo t :: int
  assumes "0 < freq" and "freq dvd lo" and "lo \<le> t"
  shows "lo + int (nat ((t - lo) div freq)) * freq = (t div freq) * freq"
proof -
  obtain c where lo: "lo = c * freq"
    using assms(2) by (auto simp: dvd_def mult.commute)
  have nonneg: "0 \<le> (t - lo) div freq"
    using assms by (simp add: pos_imp_zdiv_nonneg_iff)
  have "(t + (- c) * freq) div freq = - c + t div freq"
    using assms(1) by (subst div_mult_self1) simp_all
  then have "(t - lo) div freq = t div freq - c"
    by (simp add: lo)
  with nonneg have "int (nat ((t - lo) div freq)) = t div freq - c"
    by simp
  then have "lo + int (nat ((t - lo) div freq)) * freq = c * freq + (t div freq - c) * freq"
    by (simp only: lo)
  also have "\<dots> = (t div freq) * freq"
    by (simp add: algebra_simps)
  finally show ?thesis .
qed

lemma resample_sum_complete:
  assumes "0 < freq" and "freq dvd day_nanos" and "(t, v) \<in> set xs"
  shows "((t div freq) * freq, bucket_sum xs ((t div freq) * freq) freq) \<in> set (resample_sum freq xs)"
proof -
  have ne: "xs \<noteq> []" using assms(3) by auto
  show ?thesis
  proof (rule resample_sum_bins [OF ne assms(1)])
    fix t_first n
    assume rs: "resample_sum freq xs =
       map (\<lambda>k. (first_edge freq t_first + int k * freq,
                 bucket_sum xs (first_edge freq t_first + int k * freq) freq)) [0..<n]"
      and b: "\<And>t x. (t, x) \<in> set xs \<Longrightarrow>
           first_edge freq t_first \<le> t \<and> t < first_edge freq t_first + int n * freq"
    define lo where "lo = first_edge freq t_first"
    define k where "k = nat ((t - lo) div freq)"
    have lo: "lo \<le> t" and hi: "t < lo + int n * freq"
      using b [OF assms(3)] by (simp_all add: lo_def)
    have edge: "lo + int k * freq = (t div freq) * freq"
      unfolding k_def
      by (rule floor_bin [OF assms(1) _ lo]) (simp add: lo_def first_edge_dvd assms)
    have "lo + int k * freq \<le> t"
      using bin_index_unique [OF assms(1), of lo k t] lo by (simp add: k_def)
    then have "k < n"
      using hi assms(1)
      by (metis add_le_cancel_left leD leI mult_right_mono of_nat_le_iff order.strict_trans1 less_imp_le)
    then have "k \<in> set [0..<n]"
      by simp
    then have "(lo + int k * freq, bucket_sum xs (lo + int k * freq) freq) \<in> set (resample_sum freq xs)"
      unfolding rs lo_def set_map by (rule rev_image_eqI) simp
    then show ?thesis
      by (simp add: edge)
  qed
qed

lemma resample_sum_edges:
  assumes "0 < freq" and "freq dvd day_nanos" and "(b, x) \<in> set (resample_sum freq xs)"
  shows "freq dvd b"
proof -
  have ne: "xs \<noteq> []" using assms(3) by (auto simp: resample_sum_def)
  show ?thesis
  proof (rule resample_sum_bins [OF ne assms(1)])
    fix t_first n
    assume rs: "resample_sum freq xs =
       map (\<lambda>k. (first_edge freq t_first + int k * freq,
                 bucket_sum xs (first_edge freq t_first + int k * freq) freq)) [0..<n]"
    from assms(3) obtain k where "b = first_edge freq t_first + int k * freq"
      unfolding rs by auto
    then show ?thesis
      using first_edge_dvd [OF assms(1,2), of t_first] by simp
  qed
qed

lemma clean_data_written:
  assumes "clean_data src file_path selected_columns destination_path dst = Inr dst'"
  shows "\<exists>df agg out. read_and_preprocess src (file_path @ ''.txt'') selected_columns = Inr df
           \<and> aggregate_data df = Inr agg \<and> resample_data agg freq_H = Inr out
           \<and> dst' = dst @ [(destination_path @ ''.csv'', out)]"
  using assms by (auto simp: clean_data_def split: sum.splits)

lemma ex_negative_resampled:
  "resample_data ex_negative freq_H = Inr [(1, 3600000000000, 5)]"
  by code_simp

lemma ex_src_cleaned:
  "clean_data ex_src ''day1'' [Square_id, Time_interval, Internet_traffic] ''cleaned-day1'' []
     = Inr [(''cleaned-day1.csv'', [(7, 36000000000000, 10), (7, 39600000000000, 1)])]"
  by code_simp

lemma ex_negative_sums:
  "bucket_sum (square_rows ex_negative 1) 7200000000000 freq_H = 0"
  "bucket_sum (square_rows ex_negative 1) 0 freq_H = -2"
  by code_simp+

text \<open>
  Claim C2. The resampler discards every bucket whose summed traffic is exactly 0: a row
  of its output carries the sum of its bucket, which is not 0, and a bucket that sums
  to 0 has no row. Hence no row that \<^verbatim>\<open>clean_data\<close> writes has traffic 0.
\<close>

theorem zero_bucket_omission:
  "(resample_data df frequency = Inr out \<longrightarrow>
      (\<forall>(s, b, x) \<in> set out. x \<noteq> 0) \<and>
      (\<forall>s b. bucket_sum (square_rows df s) b frequency = 0 \<longrightarrow> (s, b) \<notin> bucket_key ` set out))
   \<and> (clean_data src file_path selected_columns destination_path dst = Inr dst' \<longrightarrow>
      (\<exists>out. dst' = dst @ [(destination_path @ ''.csv'', out)] \<and> (\<forall>(s, b, x) \<in> set out. x \<noteq> 0)))"
proof (intro conjI impI)
  assume r: "resample_data df frequency = Inr out"
  show "\<forall>(s, b, x) \<in> set out. x \<noteq> 0"
    using resample_data_bucket(2) [OF r] by fastforce
  show "\<forall>s b. bucket_sum (square_rows df s) b frequency = 0 \<longrightarrow> (s, b) \<notin> bucket_key ` set out"
  proof (intro allI impI notI)
    fix s b
    assume z: "bucket_sum (square_rows df s) b frequency = 0"
      and "(s, b) \<in> bucket_key ` set out"
    then obtain x where m: "(s, b, x) \<in> set out"
      by (auto simp: bucket_key_def)
    from resample_data_bucket [OF r m] z show False by simp
  qed
next
  assume "clean_data src file_path selected_columns destination_path dst = Inr dst'"
  from clean_data_written [OF this] obtain agg out
    where r: "resample_data agg freq_H = Inr out"
      and d: "dst' = dst @ [(destination_path @ ''.csv'', out)]"
    by blast
  have "\<forall>(s, b, x) \<in> set out. x \<noteq> 0"
    using resample_data_bucket(2) [OF r] by fastforce
  with d show "\<exists>out. dst' = dst @ [(destination_path @ ''.csv'', out)]
      \<and> (\<forall>(s, b, x) \<in> set out. x \<noteq> 0)"
    by blast
qed

theorem zero_bucket_omission_witness:
  "resample_data ex_negative freq_H = Inr [(1, 3600000000000, 5)]
   \<and> bucket_sum (square_rows ex_negative 1) 7200000000000 freq_H = 0
   \<and> (1, 7200000000000) \<notin> bucket_key ` set [(1, 3600000000000, 5)]
   \<and> clean_data ex_src ''day1'' [Square_id, Time_interval, Internet_traffic] ''cleaned-day1'' []
       = Inr [(''cleaned-day1.csv'', [(7, 36000000000000, 10), (7, 39600000000000, 1)])]
   \<and> (10 :: rat) \<noteq> 0"
  using zero_bucket_omission [of ex_negative freq_H "[(1, 3600000000000, 5)]" ex_src "''day1''"
      "[Square_id, Time_interval, Internet_traffic]" "''cleaned-day1''" "[]"
      "[(''cleaned-day1.csv'', [(7, 36000000000000, 10), (7, 39600000000000, 1)])]"]
    ex_negative_resampled ex_src_cleaned ex_negative_sums(1)
  by (simp add: bucket_key_def)

text \<open>
  Claim C10. The resampler keeps only the buckets whose summed traffic is strictly
  greater than 0: every output row has positive traffic, and a bucket whose sum is
  negative has no row in the output.
\<close>

theorem resample_keeps_positive_only:
  assumes "resample_data df frequency = Inr out"
  shows "(\<forall>(s, b, x) \<in> set out. 0 < x) \<and>
         (\<forall>s b. bucket_sum (square_rows df s) b frequency < 0 \<longrightarrow> (s, b) \<notin> bucket_key ` set out)"
proof (intro conjI allI impI notI)
  show "\<forall>(s, b, x) \<in> set out. 0 < x"
    using resample_data_bucket(2) [OF assms] by fastforce
next
  fix s b
  assume n: "bucket_sum (square_rows df s) b frequency < 0"
    and "(s, b) \<in> bucket_key ` set out"
  then obtain x where m: "(s, b, x) \<in> set out"
    by (auto simp: bucket_key_def)
  from resample_data_bucket [OF assms m] n show False by simp
qed

theorem resample_keeps_positive_only_witness:
  "resample_data ex_negative freq_H = Inr [(1, 3600000000000, 5)]
   \<and> bucket_sum (square_rows ex_negative 1) 0 freq_H = -2
   \<and> (1, 0) \<notin> bucket_key ` set [(1, 3600000000000, 5)]
   \<and> (0 :: rat) < 5"
  using resample_keeps_positive_only [OF ex_negative_resampled] ex_negative_resampled
    ex_negative_sums(2)
  by (simp add: bucket_key_def)

lemma ex_hours_resampled:
  "resample_data ex_hours freq_H
     = Inr [(7, 36000000000000, 10), (7, 39600000000000, 1), (8, 36000000000000, 2)]"
  by code_simp

text \<open>
  Claim C4. The (square, bucket) pairs of the resampler's output, and so of the file
  that \<^verbatim>\<open>clean_data\<close> writes, are pairwise different.
\<close>

theorem output_keys_unique:
  "(resample_data df frequency = Inr out \<longrightarrow> distinct (map bucket_key out))
   \<and> (clean_data src file_path selected_columns destination_path dst = Inr dst' \<longrightarrow>
      (\<exists>out. dst' = dst @ [(destination_path @ ''.csv'', out)] \<and> distinct (map bucket_key out)))"
proof (intro conjI impI)
  assume "resample_data df frequency = Inr out"
  then show "distinct (map bucket_key out)"
    by (rule resample_data_distinct)
next
  assume "clean_data src file_path selected_columns destination_path dst = Inr dst'"
  from clean_data_written [OF this] obtain agg out
    where r: "resample_data agg freq_H = Inr out"
      and d: "dst' = dst @ [(destination_path @ ''.csv'', out)]"
    by blast
  from resample_data_distinct [OF r] d
  show "\<exists>out. dst' = dst @ [(destination_path @ ''.csv'', out)] \<and> distinct (map bucket_key out)"
    by blast
qed

theorem output_keys_unique_witness:
  "resample_data ex_hours freq_H
     = Inr [(7, 36000000000000, 10), (7, 39600000000000, 1), (8, 36000000000000, 2)]
   \<and> distinct [(7 :: rat, 36000000000000 :: int), (7, 39600000000000), (8, 36000000000000)]
   \<and> clean_data ex_src ''day1'' [Square_id, Time_interval, Internet_traffic] ''cleaned-day1'' []
       = Inr [(''cleaned-day1.csv'', [(7, 36000000000000, 10), (7, 39600000000000, 1)])]
   \<and> distinct [(7 :: rat, 36000000000000 :: int), (7, 39600000000000)]"
  using output_keys_unique [of ex_hours freq_H
      "[(7, 36000000000000, 10), (7, 39600000000000, 1), (8, 36000000000000, 2)]" ex_src "''day1''"
      "[Square_id, Time_interval, Internet_traffic]" "''cleaned-day1''" "[]"
      "[(''cleaned-day1.csv'', [(7, 36000000000000, 10), (7, 39600000000000, 1)])]"]
    ex_hours_resampled ex_src_cleaned
  by (simp add: bucket_key_def)






lemma ex_scenario_resampled:
  "resample_data ex_scenario freq_H = Inr [(7, 36000000000000, 10)]"
  by code_simp

text \<open>
  Claim C5, as amended. For a frequency that divides 24 hours, the default hourly one
  included, the resampler's buckets are anchored at the multiples of the frequency from
  the epoch, left-closed and left-labelled: every output row is labelled with a multiple
  \<open>b\<close> of the frequency and carries the sum of the rows of its square with time stamp
  in \<open>[b, b + frequency)\<close>, and every aggregated row at time \<open>t\<close> lies in the bucket
  labelled \<open>(t div frequency) * frequency\<close>, which is in the output when its sum is positive.
\<close>

theorem buckets_anchored_when_frequency_divides_day:
  assumes "resample_data df frequency = Inr out" and "frequency dvd day_nanos"
  shows "(\<forall>(s, b, x) \<in> set out. frequency dvd b \<and> x = bucket_sum (square_rows df s) b frequency)
       \<and> (\<forall>(t, v) \<in> set (square_rows df s).
            0 < bucket_sum (square_rows df s) ((t div frequency) * frequency) frequency \<longrightarrow>
            (s, (t div frequency) * frequency,
               bucket_sum (square_rows df s) ((t div frequency) * frequency) frequency) \<in> set out)"
proof (intro conjI ballI)
  have f: "0 < frequency"
    using assms(1) by (rule resample_data_unfold)
  {
    fix r assume r: "r \<in> set out"
    obtain s' b x where [simp]: "r = (s', b, x)" by (cases r)
    from resample_data_member [OF assms(1), of s' b x] r
    have m: "(b, x) \<in> set (resample_sum frequency (square_rows df s'))" by simp
    have "frequency dvd b"
      by (rule resample_sum_edges [OF f assms(2) m])
    moreover have "x = bucket_sum (square_rows df s') b frequency"
      by (rule resample_sum_member [OF m])
    ultimately show "case r of (s, b, x) \<Rightarrow> frequency dvd b \<and> x = bucket_sum (square_rows df s) b frequency"
      by simp
  }
  {
    fix p assume p: "p \<in> set (square_rows df s)"
    obtain t v where [simp]: "p = (t, v)" by (cases p)
    define b where "b = (t div frequency) * frequency"
    have "(b, bucket_sum (square_rows df s) b frequency) \<in> set (resample_sum frequency (square_rows df s))"
      unfolding b_def using p by (intro resample_sum_complete [OF f assms(2), of t v]) simp
    then have "0 < bucket_sum (square_rows df s) b frequency \<Longrightarrow>
        (s, b, bucket_sum (square_rows df s) b frequency)
          \<in> set (map (Pair s) (filter (\<lambda>bx. 0 < snd bx) (resample_sum frequency (square_rows df s))))"
      by simp
    then have "0 < bucket_sum (square_rows df s) b frequency \<Longrightarrow>
        (s, b, bucket_sum (square_rows df s) b frequency) \<in> set out"
      unfolding resample_data_square [OF assms(1), symmetric] by simp
    then show "case p of (t, v) \<Rightarrow>
        0 < bucket_sum (square_rows df s) ((t div frequency) * frequency) frequency \<longrightarrow>
            (s, (t div frequency) * frequency,
               bucket_sum (square_rows df s) ((t div frequency) * frequency) frequency) \<in> set out"
      by (simp add: b_def)
  }
qed


theorem buckets_anchored_when_frequency_divides_day_witness:
  "freq_H dvd day_nanos
   \<and> resample_data ex_scenario freq_H = Inr [(7, 36000000000000, 10)]
   \<and> square_rows ex_scenario 7 = [(36300000000000, 4), (38400000000000, 6)]
   \<and> (36300000000000 div freq_H) * freq_H = 36000000000000
   \<and> (38400000000000 div freq_H) * freq_H = 36000000000000
   \<and> freq_H dvd 36000000000000
   \<and> bucket_sum (square_rows ex_scenario 7) 36000000000000 freq_H = 10"
proof -
  have d: "freq_H dvd day_nanos"
    by (simp add: freq_H_def day_nanos_def)
  have rows: "square_rows ex_scenario 7 = [(36300000000000, 4), (38400000000000, 6)]"
    by code_simp
  have floors: "(36300000000000 div freq_H) * freq_H = 36000000000000"
      "(38400000000000 div freq_H) * freq_H = 36000000000000"
    by (simp_all add: freq_H_def)
  from buckets_anchored_when_frequency_divides_day [OF ex_scenario_resampled d, of 7]
  have "freq_H dvd 36000000000000
      \<and> bucket_sum (square_rows ex_scenario 7) 36000000000000 freq_H = 10"
    by simp
  with d ex_scenario_resampled rows floors show ?thesis
    by simp
qed

text \<open>
  The claim as stated fails for a frequency that does not divide 24 hours: the bins start
  at midnight of the day of the square's first time stamp. At a frequency of 7 hours the
  rows of the second day, 10:05 and 10:40, fall in the bucket labelled 07:00 of that day,
  which is not a multiple of 7 hours from the epoch.
\<close>

theorem buckets_epoch_anchored_counterexample:
  "resample_data ex_day2 (7 * freq_H) = Inr [(7, 111600000000000, 10)]
   \<and> \<not> (7 * freq_H) dvd 111600000000000
   \<and> 111600000000000 \<noteq> (122700000000000 div (7 * freq_H)) * (7 * freq_H)"
proof -
  have "resample_data ex_day2 (7 * freq_H) = Inr [(7, 111600000000000, 10)]"
    by code_simp
  then show ?thesis
    by (simp add: freq_H_def)
qed

section \<open>Properties of the per-file pipeline and of the directory driver\<close>

lemma clean_data_destination:
  "clean_data src file_path selected_columns destination_path dst
     = (case clean_data src file_path selected_columns destination_path [] of
          Inl e \<Rightarrow> Inl e
        | Inr out \<Rightarrow> Inr (dst @ out))"
  by (simp add: clean_data_def split: sum.splits)

lemma process_loop_result:
  "process_loop src selected_columns file_list dst
     = (dst @ concat (map (written src selected_columns)
                        (takeWhile (file_ok src selected_columns) file_list)),
        case dropWhile (file_ok src selected_columns) file_list of
          [] \<Rightarrow> None
        | file_name # _ \<Rightarrow>
            (case cleaned_file src selected_columns file_name of
               Inl e \<Rightarrow> Some e | Inr out \<Rightarrow> None))"
proof (induction file_list arbitrary: dst)
  case Nil
  then show ?case by simp
next
  case (Cons file_name file_list)
  show ?case
  proof (cases "cleaned_file src selected_columns file_name")
    case (Inl e)
    then have "clean_data src (fst (splitext file_name)) selected_columns
        (''cleaned-'' @ fst (splitext file_name)) dst = Inl e"
      by (subst clean_data_destination) (simp add: cleaned_file_def)
    with Inl show ?thesis
      by (simp add: file_ok_def Let_def)
  next
    case (Inr out)
    then have "clean_data src (fst (splitext file_name)) selected_columns
        (''cleaned-'' @ fst (splitext file_name)) dst = Inr (dst @ out)"
      by (subst clean_data_destination) (simp add: cleaned_file_def)
    with Inr show ?thesis
      by (simp add: file_ok_def written_def Let_def Cons.IH)
  qed
qed

text \<open>
  Claim C7, as amended. The directory driver processes the \<^verbatim>\<open>.txt\<close> files in the order
  of the listing and stops at the first file whose processing fails: the destination
  receives the cleaned outputs of exactly the files listed before that one, and the run
  ends without an exception only when no file fails.
\<close>

theorem driver_stops_at_first_failure:
  "fst (process_files src dst selected_columns)
     = dst @ concat (map (written src selected_columns)
                       (takeWhile (file_ok src selected_columns)
                          (filter (\<lambda>file. endswith file ''.txt'') (map fst src))))
   \<and> (snd (process_files src dst selected_columns) = None
        \<longleftrightarrow> list_all (file_ok src selected_columns)
              (filter (\<lambda>file. endswith file ''.txt'') (map fst src)))"
proof -
  define files where "files = filter (\<lambda>file. endswith file ''.txt'') (map fst src)"
  have nil: "dropWhile (file_ok src selected_columns) files = [] \<longleftrightarrow>
      list_all (file_ok src selected_columns) files"
    by (simp add: dropWhile_eq_Nil_conv list_all_iff)
  have "snd (process_files src dst selected_columns) = None
      \<longleftrightarrow> list_all (file_ok src selected_columns) files"
  proof (cases "dropWhile (file_ok src selected_columns) files")
    case Nil
    have "snd (process_files src dst selected_columns) = None"
      unfolding process_files_def files_def [symmetric] process_loop_result Nil by simp
    moreover have "list_all (file_ok src selected_columns) files"
      using nil Nil by blast
    ultimately show ?thesis by simp
  next
    case (Cons file_name rest)
    then have "\<not> file_ok src selected_columns file_name"
      using hd_dropWhile [of "file_ok src selected_columns" files] by auto
    then obtain e where e: "cleaned_file src selected_columns file_name = Inl e"
      by (cases "cleaned_file src selected_columns file_name") (auto simp: file_ok_def)
    have "snd (process_files src dst selected_columns) = Some e"
      unfolding process_files_def files_def [symmetric] process_loop_result Cons by (simp add: e)
    moreover have "\<not> list_all (file_ok src selected_columns) files"
      using nil Cons by auto
    ultimately show ?thesis by simp
  qed
  then show ?thesis
    by (simp add: process_files_def files_def [symmetric] process_loop_result)
qed

theorem driver_stops_at_first_failure_witness:
  "process_files (rev ex_batch) [] [Square_id, Time_interval, Internet_traffic]
     = ([(''cleaned-b.csv'', [(2, 0, 3)])], Some ParserError)
   \<and> takeWhile (file_ok (rev ex_batch) [Square_id, Time_interval, Internet_traffic])
        (filter (\<lambda>file. endswith file ''.txt'') (map fst (rev ex_batch))) = [''b.txt'']"
proof -
  have run: "process_files (rev ex_batch) [] [Square_id, Time_interval, Internet_traffic]
     = ([(''cleaned-b.csv'', [(2, 0, 3)])], Some ParserError)"
    by code_simp
  have first: "takeWhile (file_ok (rev ex_batch) [Square_id, Time_interval, Internet_traffic])
        (filter (\<lambda>file. endswith file ''.txt'') (map fst (rev ex_batch))) = [''b.txt'']"
    by code_simp
  from driver_stops_at_first_failure
    [of "rev ex_batch" "[]" "[Square_id, Time_interval, Internet_traffic]"] run first
  show ?thesis
    by simp
qed

text \<open>
  The claim as stated fails: the first file of \<open>ex_batch\<close> has a line of nine fields, the
  second file is valid and is cleaned when processed on its own, yet the run over the
  directory ends with the parser's error and writes nothing.
\<close>

theorem driver_aborts_batch_counterexample:
  "process_files ex_batch [] [Square_id, Time_interval, Internet_traffic]
     = ([], Some ParserError)
   \<and> clean_data ex_batch ''b'' [Square_id, Time_interval, Internet_traffic] ''cleaned-b'' []
       = Inr [(''cleaned-b.csv'', [(2, 0, 3)])]"
proof -
  have "process_files ex_batch [] [Square_id, Time_interval, Internet_traffic]
     = ([], Some ParserError)"
    by code_simp
  moreover have "clean_data ex_batch ''b'' [Square_id, Time_interval, Internet_traffic]
      ''cleaned-b'' [] = Inr [(''cleaned-b.csv'', [(2, 0, 3)])]"
    by code_simp
  ultimately show ?thesis by simp
qed

text \<open>
  Claim C9, as amended. The frequency is a parameter of \<^verbatim>\<open>resample_data\<close> only, with
  default hourly. \<^verbatim>\<open>clean_data\<close> and \<^verbatim>\<open>process_files\<close> take no frequency, and the
  per-file pipeline always resamples hourly: it does what the configured pipeline would
  do at the hourly frequency, and every bucket it writes is a multiple of an hour.
\<close>

theorem pipeline_resamples_hourly:
  "clean_data src file_path selected_columns destination_path dst
     = clean_data_with_frequency freq_H src file_path selected_columns destination_path dst
   \<and> (clean_data src file_path selected_columns destination_path dst = Inr dst' \<longrightarrow>
        (\<exists>out. dst' = dst @ [(destination_path @ ''.csv'', out)]
           \<and> (\<forall>(s, b, x) \<in> set out. freq_H dvd b)))"
proof (intro conjI impI)
  show "clean_data src file_path selected_columns destination_path dst
     = clean_data_with_frequency freq_H src file_path selected_columns destination_path dst"
    by (simp add: clean_data_def clean_data_with_frequency_def)
next
  assume "clean_data src file_path selected_columns destination_path dst = Inr dst'"
  from clean_data_written [OF this] obtain agg out
    where r: "resample_data agg freq_H = Inr out"
      and d: "dst' = dst @ [(destination_path @ ''.csv'', out)]"
    by blast
  have h: "freq_H dvd day_nanos"
    by (simp add: freq_H_def day_nanos_def)
  have f: "0 < freq_H"
    by (simp add: freq_H_def)
  have "freq_H dvd b" if "(s, b, x) \<in> set out" for s b x
    using resample_sum_edges [OF f h] resample_data_member [OF r that] by blast
  with d show "\<exists>out. dst' = dst @ [(destination_path @ ''.csv'', out)]
           \<and> (\<forall>(s, b, x) \<in> set out. freq_H dvd b)"
    by blast
qed


theorem pipeline_resamples_hourly_witness:
  "clean_data ex_src ''day1'' [Square_id, Time_interval, Internet_traffic] ''cleaned-day1'' []
     = Inr [(''cleaned-day1.csv'', [(7, 36000000000000, 10), (7, 39600000000000, 1)])]
   \<and> clean_data_with_frequency freq_H ex_src ''day1'' [Square_id, Time_interval, Internet_traffic]
        ''cleaned-day1'' []
     = Inr [(''cleaned-day1.csv'', [(7, 36000000000000, 10), (7, 39600000000000, 1)])]
   \<and> freq_H dvd 36000000000000 \<and> freq_H dvd 39600000000000"
  using pipeline_resamples_hourly [of ex_src "''day1''"
      "[Square_id, Time_interval, Internet_traffic]" "''cleaned-day1''" "[]"
      "[(''cleaned-day1.csv'', [(7, 36000000000000, 10), (7, 39600000000000, 1)])]"]
    ex_src_cleaned
  by simp

text \<open>
  The claim as stated fails for a frequency other than the hourly one: with 30 minutes
  configured, the file of \<open>ex_src\<close> would give the buckets 10:00, 10:30 and 11:00 for
  square 7, and \<^verbatim>\<open>clean_data\<close> writes the hourly buckets 10:00 and 11:00.
\<close>

theorem configured_frequency_ignored_counterexample:
  "clean_data_with_frequency 1800000000000 ex_src ''day1''
       [Square_id, Time_interval, Internet_traffic] ''cleaned-day1'' []
     = Inr [(''cleaned-day1.csv'',
             [(7, 36000000000000, 4), (7, 37800000000000, 6), (7, 39600000000000, 1)])]
   \<and> clean_data ex_src ''day1'' [Square_id, Time_interval, Internet_traffic] ''cleaned-day1'' []
     = Inr [(''cleaned-day1.csv'', [(7, 36000000000000, 10), (7, 39600000000000, 1)])]
   \<and> clean_data ex_src ''day1'' [Square_id, Time_interval, Internet_traffic] ''cleaned-day1'' []
     \<noteq> clean_data_with_frequency 1800000000000 ex_src ''day1''
         [Square_id, Time_interval, Internet_traffic] ''cleaned-day1'' []"
proof -
  have "clean_data_with_frequency 1800000000000 ex_src ''day1''
       [Square_id, Time_interval, Internet_traffic] ''cleaned-day1'' []
     = Inr [(''cleaned-day1.csv'',
             [(7, 36000000000000, 4), (7, 37800000000000, 6), (7, 39600000000000, 1)])]"
    by code_simp
  with ex_src_cleaned show ?thesis
    by simp
qed

end
